theory Spec2Isabelle
  imports Main "HOL-Library.Sublist"
begin

section \<open>Strings and the helpers of package strings\<close>

text \<open>
  A Go string is a sequence of bytes; it is modelled as a \<^typ>\<open>string\<close> (a list of
  8-bit characters).  The helpers below are the functions of Go's package \<open>strings\<close> that
  the bot calls.
\<close>

definition HasPrefix :: "string \<Rightarrow> string \<Rightarrow> bool" where
  "HasPrefix s p = prefix p s"

definition HasSuffix :: "string \<Rightarrow> string \<Rightarrow> bool" where
  "HasSuffix s p = suffix p s"

definition TrimPrefix :: "string \<Rightarrow> string \<Rightarrow> string" where
  "TrimPrefix s p = (if prefix p s then drop (length p) s else s)"

text \<open>\<open>strings.Contains s sub\<close>: \<open>sub\<close> occurs somewhere in \<open>s\<close>.\<close>

fun Contains :: "string \<Rightarrow> string \<Rightarrow> bool" where
  "Contains [] sub = (sub = [])"
| "Contains (c # cs) sub = (prefix sub (c # cs) \<or> Contains cs sub)"

text \<open>
  \<open>link[:idx]\<close> for \<open>idx := strings.Index(link, "?")\<close>, when \<open>idx\<close> is not \<open>-1\<close>: the
  part of the string before its first question mark; the whole string when there is none.
\<close>

definition cutQuery :: "string \<Rightarrow> string" where
  "cutQuery link = takeWhile (\<lambda>c. c \<noteq> CHR ''?'') link"

section \<open>Regular expressions with leftmost-first matching\<close>

text \<open>
  Package \<open>regexp\<close> finds, at the leftmost position where a match exists, the match that a
  backtracking engine would find first.  The syntax tree has the constructors the three
  patterns of the bot use.  Character classes are predicates on bytes: the classes of the
  patterns are ASCII classes or their complements, and every byte of a multi-byte rune
  lies outside ASCII.
\<close>

datatype rx =
    Lit string
  | Cls "char \<Rightarrow> bool"
  | Seq rx rx
  | Alt rx rx
  | Opt rx
  | Star rx
  | Plus rx

fun rx_weight :: "rx \<Rightarrow> nat" where
  "rx_weight (Lit p) = 0"
| "rx_weight (Cls P) = 0"
| "rx_weight (Seq a b) = Suc (rx_weight a + rx_weight b)"
| "rx_weight (Alt a b) = Suc (rx_weight a + rx_weight b)"
| "rx_weight (Opt a) = Suc (rx_weight a)"
| "rx_weight (Star a) = Suc (rx_weight a)"
| "rx_weight (Plus a) = Suc (Suc (rx_weight a))"

text \<open>
  \<open>ms r s\<close> lists, in the order of preference of the engine, what is left of \<open>s\<close> after
  each way of matching \<open>r\<close> at the start of \<open>s\<close>: the left alternative before the right
  one, one more iteration of a greedy repetition before stopping.  An iteration of a
  star that consumes nothing is not repeated.
\<close>

function ms :: "rx \<Rightarrow> string \<Rightarrow> string list" where
  "ms (Lit p) s = (if prefix p s then [drop (length p) s] else [])"
| "ms (Cls P) s = (case s of [] \<Rightarrow> [] | c # cs \<Rightarrow> if P c then [cs] else [])"
| "ms (Seq a b) s = concat (map (ms b) (ms a s))"
| "ms (Alt a b) s = ms a s @ ms b s"
| "ms (Opt a) s = ms a s @ [s]"
| "ms (Star a) s =
     concat (map (ms (Star a)) (filter (\<lambda>t. length t < length s) (ms a s))) @ [s]"
| "ms (Plus a) s = concat (map (ms (Star a)) (ms a s))"
  by pat_completeness auto
termination
  by (relation "(\<lambda>(r, s). rx_weight r) <*mlex*> measure (\<lambda>(r, s). length s)")
     (auto simp: wf_mlex mlex_less mlex_leq)

declare ms.simps(6) [simp del]

text \<open>The preferred match at the start of \<open>s\<close>: what is matched and what is left.\<close>

definition matchAt :: "rx \<Rightarrow> string \<Rightarrow> (string \<times> string) option" where
  "matchAt r s =
     (case ms r s of [] \<Rightarrow> None
      | t # ts \<Rightarrow> Some (take (length s - length t) s, t))"

text \<open>
  The leftmost match in \<open>s\<close>: the text before it, the match, and the text after it.
\<close>

fun findMatch :: "rx \<Rightarrow> string \<Rightarrow> (string \<times> string \<times> string) option" where
  "findMatch r [] =
     (case matchAt r [] of None \<Rightarrow> None | Some (m, t) \<Rightarrow> Some ([], m, t))"
| "findMatch r (c # cs) =
     (case matchAt r (c # cs) of
        Some (m, t) \<Rightarrow> Some ([], m, t)
      | None \<Rightarrow>
          (case findMatch r cs of None \<Rightarrow> None
           | Some (g, m, t) \<Rightarrow> Some (c # g, m, t)))"

text \<open>\<open>regexp.MatchString\<close>: the pattern matches somewhere in the text.\<close>

definition MatchString :: "rx \<Rightarrow> string \<Rightarrow> bool" where
  "MatchString r s = (findMatch r s \<noteq> None)"


lemma ms_suffix: "t \<in> set (ms r s) \<Longrightarrow> suffix t s"
proof (induction r s arbitrary: t rule: ms.induct)
  case (1 p s)
  then show ?case by (auto simp: suffix_drop split: if_splits)
next
  case (2 P s)
  then show ?case by (auto simp: suffix_Cons split: list.splits if_splits)
next
  case (3 a b s)
  from 3(3) obtain u where u: "u \<in> set (ms a s)" "t \<in> set (ms b u)" by auto
  from 3(1) [OF u(1)] have "suffix u s" .
  moreover from 3(2) [OF u(1) u(2)] have "suffix t u" .
  ultimately show ?case by (rule suffix_order.trans [rotated])
next
  case (4 a b s)
  from 4(3) have "t \<in> set (ms a s) \<or> t \<in> set (ms b s)" by simp
  then show ?case using 4(1) 4(2) by blast
next
  case (5 a s)
  from 5(2) have "t \<in> set (ms a s) \<or> t = s" by auto
  then show ?case using 5(1) by auto
next
  case (6 a s)
  show ?case
  proof (cases "t = s")
    case True
    then show ?thesis by simp
  next
    case False
    from 6(3) have "t \<in> set (concat (map (ms (Star a))
        (filter (\<lambda>t. length t < length s) (ms a s))) @ [s])"
      by (subst (asm) ms.simps(6))
    with False obtain u where u: "u \<in> set (ms a s)" "length u < length s"
      "t \<in> set (ms (Star a) u)" by auto
    from u(1) u(2) have "u \<in> set (filter (\<lambda>t. length t < length s) (ms a s))" by simp
    from 6(2) [OF this u(3)] have "suffix t u" .
    moreover from 6(1) [OF u(1)] have "suffix u s" .
    ultimately show ?thesis by (rule suffix_order.trans)
  qed
next
  case (7 a s)
  from 7(3) obtain u where u: "u \<in> set (ms a s)" "t \<in> set (ms (Star a) u)" by auto
  from 7(1) [OF u(1)] have "suffix u s" .
  moreover from 7(2) [OF u(1) u(2)] have "suffix t u" .
  ultimately show ?case by (rule suffix_order.trans [rotated])
qed

lemma matchAt_append: "matchAt r s = Some (m, t) \<Longrightarrow> s = m @ t"
proof -
  assume a: "matchAt r s = Some (m, t)"
  then obtain ts where ms: "ms r s = t # ts" and m: "m = take (length s - length t) s"
    by (auto simp: matchAt_def split: list.splits)
  from ms have "suffix t s" using ms_suffix [of t r s] by simp
  then obtain p where "s = p @ t" by (auto simp: suffix_def)
  with m show ?thesis by simp
qed

lemma findMatch_append: "findMatch r s = Some (g, m, t) \<Longrightarrow> s = g @ m @ t"
proof (induction s arbitrary: g)
  case Nil
  then show ?case by (auto dest: matchAt_append split: option.splits)
next
  case (Cons c cs)
  show ?case
  proof (cases "matchAt r (c # cs)")
    case None
    with Cons.prems obtain g' where "findMatch r cs = Some (g', m, t)" "g = c # g'"
      by (auto split: option.splits)
    with Cons.IH show ?thesis by simp
  next
    case (Some a)
    with Cons.prems have "matchAt r (c # cs) = Some (m, t)" "g = []"
      by (auto split: option.splits)
    then show ?thesis by (auto dest: matchAt_append)
  qed
qed

text \<open>
  \<open>Regexp.ReplaceAllStringFunc\<close>: the text with every match, found from left to right
  and each search starting where the last match ended, replaced by \<open>repl\<close> of the match.
  The flag says that a match ended just where this search starts: an empty match there
  is not replaced, and after an empty match the search moves on by one byte.
\<close>

function replaceAll :: "rx \<Rightarrow> (string \<Rightarrow> string) \<Rightarrow> bool \<Rightarrow> string \<Rightarrow> string" where
  "replaceAll r repl after s =
     (case findMatch r s of
        None \<Rightarrow> s
      | Some (g, m, t) \<Rightarrow>
          g @ (if m = [] \<and> g = [] \<and> after then [] else repl m) @
          (if m \<noteq> [] then replaceAll r repl True t
           else (case t of [] \<Rightarrow> [] | c # cs \<Rightarrow> c # replaceAll r repl False cs)))"
  by pat_completeness auto
termination
proof (relation "measure (\<lambda>(r, repl, after, s). length s)")
  show "wf (measure (\<lambda>(r, repl, after, s). length s))" by simp
next
  fix r :: rx and repl :: "string \<Rightarrow> string" and after :: bool and s x2 g y m t
  assume "findMatch r s = Some x2" "(g, y) = x2" "(m, t) = y" "m \<noteq> []"
  then have "s = g @ m @ t" "m \<noteq> []" by (auto dest: findMatch_append)
  then have "length t < length s" by (cases m) auto
  then show "((r, repl, True, t), (r, repl, after, s)) \<in> measure (\<lambda>(r, repl, after, s). length s)"
    by simp
next
  fix r :: rx and repl :: "string \<Rightarrow> string" and after :: bool and s x2 g y m t c cs
  assume "findMatch r s = Some x2" "(g, y) = x2" "(m, t) = y" "t = c # cs"
  then have "s = g @ m @ c # cs" by (auto dest: findMatch_append)
  then have "length cs < length s" by simp
  then show "((r, repl, False, cs), (r, repl, after, s)) \<in> measure (\<lambda>(r, repl, after, s). length s)"
    by simp
qed

definition ReplaceAllStringFunc :: "rx \<Rightarrow> string \<Rightarrow> (string \<Rightarrow> string) \<Rightarrow> string" where
  "ReplaceAllStringFunc r src repl = replaceAll r repl False src"

declare replaceAll.simps [simp del]

section \<open>The patterns of the bot\<close>

text \<open>
  The classes of the patterns: \<open>\s\<close> is \<open>[\t\n\f\r ]\<close> and \<open>\d\<close> is \<open>[0-9]\<close> in the
  syntax of package \<open>regexp\<close>.
\<close>

definition isSpace :: "char \<Rightarrow> bool" where
  "isSpace c = (c \<in> set [CHR 0x09, CHR 0x0A, CHR 0x0C, CHR 0x0D, CHR '' ''])"

definition isDigit :: "char \<Rightarrow> bool" where
  "isDigit c = (c \<in> set ''0123456789'')"

definition isWord :: "char \<Rightarrow> bool" where
  "isWord c =
     (c \<in> set ''abcdefghijklmnopqrstuvwxyzABCDEFGHIJKLMNOPQRSTUVWXYZ0123456789_'')"

definition notSlash :: "char \<Rightarrow> bool" where
  "notSlash c = (c \<noteq> CHR ''/'')"

text \<open>\<open>[^\s<>]\<close> and \<open>[^<\s]\<close>.\<close>

definition queryChar :: "char \<Rightarrow> bool" where
  "queryChar c = (\<not> isSpace c \<and> c \<noteq> CHR ''<'' \<and> c \<noteq> CHR ''>'')"

definition tailChar :: "char \<Rightarrow> bool" where
  "tailChar c = (c \<noteq> CHR ''<'' \<and> \<not> isSpace c)"

text \<open>
  The three patterns start alike, with \<open>https?://(www\.)?(twitter\.com|x\.com)/\<close>;
  \<open>linkHead k\<close> is that start followed by \<open>k\<close>.
\<close>

definition linkHead :: "rx \<Rightarrow> rx" where
  "linkHead k =
     Seq (Lit ''http'') (Seq (Opt (Lit ''s'')) (Seq (Lit ''://'')
       (Seq (Opt (Lit ''www.'')) (Seq (Alt (Lit ''twitter.com'') (Lit ''x.com''))
         (Seq (Lit ''/'') k)))))"

text \<open>
  The pattern of \<open>modifyTwitterLinks\<close>:
  \<open>(<)?https?://(www\.)?(twitter\.com|x\.com)/[^/]+/status/\d+(\?[^\s<>]*)?([^<\s]*)>?\<close>
\<close>

definition modifyPattern :: rx where
  "modifyPattern =
     Seq (Opt (Lit ''<''))
       (linkHead (Seq (Plus (Cls notSlash)) (Seq (Lit ''/status/'')
         (Seq (Plus (Cls isDigit))
           (Seq (Opt (Seq (Lit ''?'') (Star (Cls queryChar))))
             (Seq (Star (Cls tailChar)) (Opt (Lit ''>''))))))))"

text \<open>
  The pattern of \<open>containsTwitterLink\<close>:
  \<open>https?:\/\/(www\.)?(twitter\.com|x\.com)\/[a-zA-Z0-9_]+\/status\/[0-9]+\<close>
\<close>

definition containsPattern :: rx where
  "containsPattern =
     linkHead (Seq (Plus (Cls isWord)) (Seq (Lit ''/status/'') (Plus (Cls isDigit))))"

text \<open>
  The pattern of \<open>extractTwitterLinks\<close>, the status link itself:
  \<open>https?://(www\.)?(twitter\.com|x\.com)/[^/]+/status/\d+\<close>
\<close>

definition extractPattern :: rx where
  "extractPattern =
     linkHead (Seq (Plus (Cls notSlash)) (Seq (Lit ''/status/'') (Plus (Cls isDigit))))"

section \<open>The link rewriter\<close>

definition modifySingleLink :: "string \<Rightarrow> string" where
  "modifySingleLink link0 =
     (let link = cutQuery link0;
          link = TrimPrefix link ''http://'';
          link = TrimPrefix link ''https://'';
          link = TrimPrefix link ''www.''
      in if HasPrefix link ''twitter.com''
           then ''https://fxtwitter.com'' @ TrimPrefix link ''twitter.com''
         else if HasPrefix link ''x.com''
           then ''https://fixupx.com'' @ TrimPrefix link ''x.com''
         else link)"

definition modifyMatch :: "string \<Rightarrow> string" where
  "modifyMatch m =
     (if HasPrefix m ''<'' \<and> HasSuffix m ''>'' then m else modifySingleLink m)"

definition modifyTwitterLinks :: "string \<Rightarrow> string" where
  "modifyTwitterLinks content = ReplaceAllStringFunc modifyPattern content modifyMatch"

definition containsTwitterLink :: "string \<Rightarrow> bool" where
  "containsTwitterLink content = MatchString containsPattern content"

section \<open>Messages, embeds and attachments\<close>

text \<open>
  The fields of \<open>discordgo.MessageEmbed\<close>, \<open>discordgo.MessageAttachment\<close> and
  \<open>discordgo.MessageCreate\<close> that the handler reads.  \<open>embedImage\<close> and
  \<open>embedThumbnail\<close> are \<open>None\<close> where the pointer is \<open>nil\<close> and hold the \<open>URL\<close> field of
  the image otherwise.
\<close>

record MessageEmbed =
  embedURL :: string
  embedImage :: "string option"
  embedThumbnail :: "string option"

record MessageAttachment =
  attachmentURL :: string

record Message =
  authorID :: string
  channelID :: string
  content :: string
  embeds :: "MessageEmbed list"
  attachments :: "MessageAttachment list"

text \<open>
  \<open>url.Parse\<close> and \<open>URL.Hostname\<close> belong to Go's standard library.  The classifiers take
  them as one parameter \<open>host\<close>: \<open>host u\<close> is \<open>None\<close> where \<open>url.Parse(u)\<close> returns an error
  and \<open>Some h\<close> where it succeeds with \<open>u.Hostname() = h\<close>.
\<close>

type_synonym hostname = "string \<Rightarrow> string option"

text \<open>
  For the concrete examples below: the URLs that the examples use, each with the hostname
  that \<open>url.Parse\<close> and \<open>Hostname\<close> give for it.  The examples call \<open>exampleHost\<close> on
  these URLs only.
\<close>

definition exampleHost :: hostname where
  "exampleHost =
     map_of [(''https://pbs.twimg.com/media/a.jpg'', ''pbs.twimg.com''),
             (''https://pbs.twimg.com/tweet_video_thumb/x.jpg'', ''pbs.twimg.com''),
             (''https://abs.twimg.com/x.png'', ''abs.twimg.com''),
             (''https://example.com/page'', ''example.com'')]"

subsection \<open>The classifier of main.go\<close>

definition twitterCDNs_main :: "string list" where
  "twitterCDNs_main =
     [''pbs.twimg.com'', ''video.twimg.com'', ''abs.twimg.com'', ''ton.twimg.com'']"

text \<open>
  One block \<open>u, err := url.Parse(...); if err == nil { for _, cdn := range twitterCDNs
  { if strings.HasSuffix(u.Hostname(), cdn) { return true } } }\<close>: whether it returns true.
\<close>

definition onCDN :: "hostname \<Rightarrow> string list \<Rightarrow> string \<Rightarrow> bool" where
  "onCDN host cdns u =
     (case host u of None \<Rightarrow> False | Some h \<Rightarrow> list_ex (\<lambda>cdn. HasSuffix h cdn) cdns)"

definition isTwitterEmbed :: "hostname \<Rightarrow> MessageEmbed \<Rightarrow> bool" where
  "isTwitterEmbed host emb =
     (if embedURL emb \<noteq> [] \<and> onCDN host twitterCDNs_main (embedURL emb) then True
      else if (case embedImage emb of None \<Rightarrow> False
               | Some u \<Rightarrow> u \<noteq> [] \<and> onCDN host twitterCDNs_main u) then True
      else if (case embedThumbnail emb of None \<Rightarrow> False
               | Some u \<Rightarrow> u \<noteq> [] \<and> onCDN host twitterCDNs_main u) then True
      else False)"

definition hasValidTwitterEmbed :: "hostname \<Rightarrow> MessageEmbed list \<Rightarrow> bool" where
  "hasValidTwitterEmbed host es = list_ex (isTwitterEmbed host) es"

subsection \<open>The classifier of the revisions with attachments\<close>

definition twitterCDNs :: "string list" where
  "twitterCDNs = [''pbs.twimg.com'', ''video.twimg.com'', ''ton.twimg.com'']"

text \<open>
  One block of these revisions: after the loop over the CDN list comes
  \<open>if strings.HasSuffix(u.Hostname(), "abs.twimg.com") { return false }\<close>.  The result is
  \<open>Some b\<close> where the block returns \<open>b\<close> and \<open>None\<close> where control goes on after it.
\<close>

definition checkURL :: "hostname \<Rightarrow> string \<Rightarrow> bool option" where
  "checkURL host u =
     (case host u of
        None \<Rightarrow> None
      | Some h \<Rightarrow>
          if list_ex (\<lambda>cdn. HasSuffix h cdn) twitterCDNs then Some True
          else if HasSuffix h ''abs.twimg.com'' then Some False
          else None)"

text \<open>
  The thumbnail block of src/unnamed/part\_001 (its third file), with the test for
  placeholder thumbnails.
\<close>

definition checkThumbnail :: "hostname \<Rightarrow> string \<Rightarrow> bool option" where
  "checkThumbnail host u =
     (case host u of
        None \<Rightarrow> None
      | Some h \<Rightarrow>
          if Contains u ''tweet_video_thumb'' \<or> Contains u ''amplify_video_thumb''
          then Some False
          else checkURL host u)"

text \<open>\<open>isWorkingTwitterEmbed\<close> of src/unnamed/part\_002.\<close>

definition isWorkingTwitterEmbed_002 :: "hostname \<Rightarrow> MessageEmbed \<Rightarrow> bool" where
  "isWorkingTwitterEmbed_002 host emb =
     (case (if embedURL emb \<noteq> [] then checkURL host (embedURL emb) else None) of
        Some b \<Rightarrow> b
      | None \<Rightarrow>
     (case (case embedImage emb of None \<Rightarrow> None
            | Some u \<Rightarrow> if u \<noteq> [] then checkURL host u else None) of
        Some b \<Rightarrow> b
      | None \<Rightarrow>
     (case (case embedThumbnail emb of None \<Rightarrow> None
            | Some u \<Rightarrow> if u \<noteq> [] then checkURL host u else None) of
        Some b \<Rightarrow> b
      | None \<Rightarrow> False)))"

text \<open>\<open>isWorkingTwitterEmbed\<close> of src/unnamed/part\_001, the revision with the marker test.\<close>

definition isWorkingTwitterEmbed :: "hostname \<Rightarrow> MessageEmbed \<Rightarrow> bool" where
  "isWorkingTwitterEmbed host emb =
     (case (if embedURL emb \<noteq> [] then checkURL host (embedURL emb) else None) of
        Some b \<Rightarrow> b
      | None \<Rightarrow>
     (case (case embedImage emb of None \<Rightarrow> None
            | Some u \<Rightarrow> if u \<noteq> [] then checkURL host u else None) of
        Some b \<Rightarrow> b
      | None \<Rightarrow>
     (case (case embedThumbnail emb of None \<Rightarrow> None
            | Some u \<Rightarrow> if u \<noteq> [] then checkThumbnail host u else None) of
        Some b \<Rightarrow> b
      | None \<Rightarrow> False)))"

definition isWorkingTwitterAttachment :: "hostname \<Rightarrow> MessageAttachment \<Rightarrow> bool" where
  "isWorkingTwitterAttachment host attachment =
     (case checkURL host (attachmentURL attachment) of Some b \<Rightarrow> b | None \<Rightarrow> False)"

definition hasValidTwitterPreview_002 :: "hostname \<Rightarrow> Message \<Rightarrow> bool" where
  "hasValidTwitterPreview_002 host m =
     (if list_ex (isWorkingTwitterEmbed_002 host) (embeds m) then True
      else if list_ex (isWorkingTwitterAttachment host) (attachments m) then True
      else False)"

definition hasValidTwitterPreview :: "hostname \<Rightarrow> Message \<Rightarrow> bool" where
  "hasValidTwitterPreview host m =
     (if list_ex (isWorkingTwitterEmbed host) (embeds m) then True
      else if list_ex (isWorkingTwitterAttachment host) (attachments m) then True
      else False)"

section \<open>The message handler\<close>

text \<open>
  \<open>messageCreate\<close> returns the calls of \<open>ChannelMessageSend\<close> it makes, each a channel and
  a text, in order.  \<open>botID\<close> is \<open>s.State.User.ID\<close>.  What the handler writes to the log,
  and whether a send succeeds (a failure is logged and changes nothing else), is left out.

  The body of \<open>messageCreate\<close> is the same in main.go, in src/unnamed/part\_002 and in the
  third file of src/unnamed/part\_001 but for the classifier it calls.
  \<open>messageCreateWith\<close> is that body with the three functions it calls as parameters:
  \<open>detect\<close> for \<open>containsTwitterLink\<close>, \<open>sufficient\<close> for the classifier and \<open>rewrite\<close> for
  \<open>modifyTwitterLinks\<close>.  A branch that returns before a call does not depend on the
  function called.
\<close>

definition messageCreateWith ::
  "(string \<Rightarrow> bool) \<Rightarrow> (Message \<Rightarrow> bool) \<Rightarrow> (string \<Rightarrow> string) \<Rightarrow>
   string \<Rightarrow> Message \<Rightarrow> (string \<times> string) list" where
  "messageCreateWith detect sufficient rewrite botID m =
     (if authorID m = botID then []
      else if content m = ''hello'' then [(channelID m, ''world!'')]
      else if detect (content m) then
        (if \<not> sufficient m then
           (let modifiedContent = rewrite (content m)
            in if modifiedContent \<noteq> content m then [(channelID m, modifiedContent)] else [])
         else [])
      else [])"

text \<open>The handler of main.go, which calls \<open>hasValidTwitterEmbed(m.Embeds)\<close>.\<close>

definition messageCreate :: "string \<Rightarrow> hostname \<Rightarrow> Message \<Rightarrow> (string \<times> string) list" where
  "messageCreate botID host m =
     messageCreateWith containsTwitterLink (\<lambda>m. hasValidTwitterEmbed host (embeds m))
       modifyTwitterLinks botID m"

text \<open>The handler of src/unnamed/part\_002, which calls \<open>hasValidTwitterPreview(m)\<close>.\<close>

definition messageCreate_002 :: "string \<Rightarrow> hostname \<Rightarrow> Message \<Rightarrow> (string \<times> string) list" where
  "messageCreate_002 botID host m =
     messageCreateWith containsTwitterLink (hasValidTwitterPreview_002 host)
       modifyTwitterLinks botID m"

text \<open>The handler of the third file of src/unnamed/part\_001.\<close>

definition messageCreate_001 :: "string \<Rightarrow> hostname \<Rightarrow> Message \<Rightarrow> (string \<times> string) list" where
  "messageCreate_001 botID host m =
     messageCreateWith containsTwitterLink (hasValidTwitterPreview host)
       modifyTwitterLinks botID m"

section \<open>The matches of the patterns, read off directly\<close>

declare ms.simps [simp del]

definition lit :: "string \<Rightarrow> string \<Rightarrow> string option" where
  "lit p s = (if prefix p s then Some (drop (length p) s) else None)"

definition optl :: "string \<Rightarrow> string \<Rightarrow> string" where
  "optl p s = (if prefix p s then drop (length p) s else s)"

definition firstRest :: "rx \<Rightarrow> string \<Rightarrow> string option" where
  "firstRest r s = (case ms r s of [] \<Rightarrow> None | t # ts \<Rightarrow> Some t)"

definition headRest :: "string \<Rightarrow> string option" where
  "headRest s =
     Option.bind (lit ''http'' s) (\<lambda>s1.
     Option.bind (lit ''://'' (optl ''s'' s1)) (\<lambda>s2.
     Option.bind (case lit ''twitter.com'' (optl ''www.'' s2) of
                    Some s3 \<Rightarrow> Some s3
                  | None \<Rightarrow> lit ''x.com'' (optl ''www.'' s2)) (\<lambda>s3.
     lit ''/'' s3)))"

definition afterHandle :: "(char \<Rightarrow> bool) \<Rightarrow> string \<Rightarrow> string option" where
  "afterHandle P s =
     Option.bind (headRest s) (\<lambda>r.
       if takeWhile P r = [] then None else lit ''/status/'' (dropWhile P r))"

lemma matchAt_firstRest:
  "matchAt r s = map_option (\<lambda>t. (take (length s - length t) s, t)) (firstRest r s)"
  by (simp add: matchAt_def firstRest_def split: list.splits)

lemma ms_Seq_Lit: "ms (Seq (Lit p) k) s = (case lit p s of None \<Rightarrow> [] | Some r \<Rightarrow> ms k r)"
  by (simp add: lit_def ms.simps)

lemma ms_Seq_Opt_Lit:
  "(prefix p s \<Longrightarrow> ms k s = []) \<Longrightarrow> ms (Seq (Opt (Lit p)) k) s = ms k (optl p s)"
  by (simp add: optl_def ms.simps)

lemma ms_Seq_Alt: "ms (Seq (Alt a b) k) s = ms (Seq a k) s @ ms (Seq b k) s"
  by (simp add: ms.simps)

lemma ms_Star_Cls:
  "ms (Star (Cls P)) s =
     (case s of [] \<Rightarrow> [[]] | c # cs \<Rightarrow> if P c then ms (Star (Cls P)) cs @ [s] else [s])"
  by (subst ms.simps(6)) (simp add: ms.simps(2) split: list.splits)

lemma ms_Star_Cls_shape:
  "\<exists>xs. ms (Star (Cls P)) s = dropWhile P s # xs \<and> (\<forall>t\<in>set xs. t \<noteq> [] \<and> P (hd t))"
proof (induction s)
  case Nil
  show ?case by (subst ms_Star_Cls) simp
next
  case (Cons c cs)
  then obtain xs where xs: "ms (Star (Cls P)) cs = dropWhile P cs # xs"
    "\<forall>t\<in>set xs. t \<noteq> [] \<and> P (hd t)" by blast
  show ?case
  proof (cases "P c")
    case True
    with xs show ?thesis by (subst ms_Star_Cls) auto
  next
    case False
    then show ?thesis by (subst ms_Star_Cls) simp
  qed
qed

lemma ms_Plus_Cls:
  "ms (Plus (Cls P)) s =
     (case s of [] \<Rightarrow> [] | c # cs \<Rightarrow> if P c then ms (Star (Cls P)) cs else [])"
  by (simp add: ms.simps(2,7) split: list.splits)

lemma ms_Plus_Cls_shape:
  "takeWhile P s \<noteq> [] \<Longrightarrow>
   \<exists>xs. ms (Plus (Cls P)) s = dropWhile P s # xs \<and> (\<forall>t\<in>set xs. t \<noteq> [] \<and> P (hd t))"
  using ms_Star_Cls_shape [of P "tl s"]
  by (cases s) (auto simp: ms_Plus_Cls split: if_splits)

lemma ms_Plus_Cls_none: "takeWhile P s = [] \<Longrightarrow> ms (Plus (Cls P)) s = []"
  by (cases s) (auto simp: ms_Plus_Cls split: if_splits)


text \<open>A greedy run of a class before a literal that starts outside the class.\<close>

lemma ms_Seq_Plus_Cls_Lit:
  assumes "q \<noteq> []" and "\<not> P (hd q)"
  shows "ms (Seq (Plus (Cls P)) (Seq (Lit q) k)) s =
     (if takeWhile P s = [] then [] else ms (Seq (Lit q) k) (dropWhile P s))"
proof (cases "takeWhile P s = []")
  case True
  then show ?thesis
    by (simp only: ms.simps(3) [of "Plus (Cls P)"] ms_Plus_Cls_none [OF True]) simp
next
  case False
  then obtain xs where xs: "ms (Plus (Cls P)) s = dropWhile P s # xs"
    "\<forall>t\<in>set xs. t \<noteq> [] \<and> P (hd t)" using ms_Plus_Cls_shape by blast
  have "ms (Seq (Lit q) k) t = []" if "t \<in> set xs" for t
  proof -
    from that xs have t: "t \<noteq> []" "P (hd t)" by auto
    with assms have "\<not> prefix q t" by (cases q; cases t) auto
    then show ?thesis by (simp add: lit_def ms.simps)
  qed
  then have "concat (map (ms (Seq (Lit q) k)) xs) = []" by simp
  with False xs(1) show ?thesis
    by (simp only: ms.simps(3) [of "Plus (Cls P)"] list.map concat.simps if_False append_Nil2)
qed

lemma ms_linkHead:
  "ms (linkHead k) s = (case headRest s of None \<Rightarrow> [] | Some r \<Rightarrow> ms k r)"
proof -
  have s_opt: "ms (Seq (Opt (Lit ''s'')) K) t = ms K (optl ''s'' t)"
    if "K = Seq (Lit ''://'') K'" for K K' t
    by (rule ms_Seq_Opt_Lit) (cases t; auto simp add: that ms.simps)
  have w_opt: "ms (Seq (Opt (Lit ''www.'')) K) t = ms K (optl ''www.'' t)"
    if "K = Seq (Alt (Lit ''twitter.com'') (Lit ''x.com'')) K'" for K K' t
    by (rule ms_Seq_Opt_Lit) (cases t; auto simp add: that ms.simps)
  have both: "lit ''twitter.com'' t = Some u \<Longrightarrow> lit ''x.com'' t = None" for t u
    by (cases t) (auto simp: lit_def split: if_splits)
  show ?thesis
    unfolding linkHead_def headRest_def
    apply (simp only: ms_Seq_Lit s_opt [OF refl] w_opt [OF refl] ms_Seq_Alt)
    apply (auto simp: Option.bind_def both split: option.splits)
    done
qed


lemma firstRest_Seq:
  "firstRest a s = Some r \<Longrightarrow> firstRest k r = Some r' \<Longrightarrow> firstRest (Seq a k) s = Some r'"
  by (auto simp: firstRest_def ms.simps split: list.splits)

lemma firstRest_Seq_None: "firstRest a s = None \<Longrightarrow> firstRest (Seq a k) s = None"
  by (auto simp: firstRest_def ms.simps split: list.splits)

lemma firstRest_Star_Cls: "firstRest (Star (Cls P)) s = Some (dropWhile P s)"
  using ms_Star_Cls_shape [of P s] by (auto simp: firstRest_def)

lemma firstRest_Plus_Cls:
  "firstRest (Plus (Cls P)) s = (if takeWhile P s = [] then None else Some (dropWhile P s))"
proof (cases "takeWhile P s = []")
  case True
  then show ?thesis by (simp only: firstRest_def ms_Plus_Cls_none [OF True]) simp
next
  case False
  then obtain xs where "ms (Plus (Cls P)) s = dropWhile P s # xs"
    using ms_Plus_Cls_shape by blast
  with False show ?thesis by (simp only: firstRest_def) simp
qed

lemma firstRest_Opt:
  "firstRest (Opt a) s = (case firstRest a s of None \<Rightarrow> Some s | Some r \<Rightarrow> Some r)"
  by (auto simp: firstRest_def ms.simps split: list.splits)

lemma firstRest_Lit: "firstRest (Lit p) s = lit p s"
  by (simp add: firstRest_def lit_def ms.simps)

lemma dropWhile_dropWhile_sub:
  "(\<And>c. Q c \<Longrightarrow> P c) \<Longrightarrow> dropWhile P (dropWhile Q s) = dropWhile P s"
  by (induction s) auto

lemma digit_tailChar: "isDigit c \<Longrightarrow> tailChar c"
  by (auto simp: isDigit_def tailChar_def isSpace_def)

lemma queryChar_tailChar: "queryChar c \<Longrightarrow> tailChar c"
  by (simp add: queryChar_def tailChar_def)

lemma dropWhile_tailChar_no_gt: "\<not> prefix ''>'' (dropWhile tailChar s)"
proof
  assume "prefix ''>'' (dropWhile tailChar s)"
  then obtain cs where cs: "dropWhile tailChar s = CHR ''>'' # cs"
    by (cases "dropWhile tailChar s") auto
  then have "\<not> tailChar (hd (dropWhile tailChar s))"
    using hd_dropWhile [of tailChar s] by simp
  with cs show False by (simp add: tailChar_def isSpace_def)
qed

text \<open>The end of the pattern of \<open>modifyTwitterLinks\<close>, after \<open>/status/\<close>.\<close>

lemma firstRest_tail:
  "firstRest (Seq (Plus (Cls isDigit))
     (Seq (Opt (Seq (Lit ''?'') (Star (Cls queryChar))))
       (Seq (Star (Cls tailChar)) (Opt (Lit ''>''))))) s =
   (if takeWhile isDigit s = [] then None else Some (dropWhile tailChar s))"
proof (cases "takeWhile isDigit s = []")
  case True
  then show ?thesis by (simp add: firstRest_Seq_None firstRest_Plus_Cls)
next
  case False
  let ?d = "dropWhile isDigit s"
  have 1: "firstRest (Plus (Cls isDigit)) s = Some ?d"
    using False by (simp add: firstRest_Plus_Cls)
  have gt: "firstRest (Seq (Star (Cls tailChar)) (Opt (Lit ''>''))) u = Some (dropWhile tailChar u)"
    for u
    by (rule firstRest_Seq [OF firstRest_Star_Cls])
       (simp add: firstRest_Opt firstRest_Lit lit_def dropWhile_tailChar_no_gt)
  have q: "\<exists>v. firstRest (Opt (Seq (Lit ''?'') (Star (Cls queryChar)))) u = Some v \<and>
      dropWhile tailChar v = dropWhile tailChar u" for u
  proof (cases "prefix ''?'' u")
    case True
    then obtain u' where u: "u = CHR ''?'' # u'" by (cases u) auto
    have "firstRest (Seq (Lit ''?'') (Star (Cls queryChar))) u = Some (dropWhile queryChar u')"
      by (rule firstRest_Seq [where r = u']) (simp_all add: firstRest_Lit lit_def u firstRest_Star_Cls)
    moreover have "dropWhile tailChar (dropWhile queryChar u') = dropWhile tailChar u"
      using dropWhile_dropWhile_sub [of queryChar tailChar u', OF queryChar_tailChar]
      by (simp add: u tailChar_def isSpace_def)
    ultimately show ?thesis by (simp add: firstRest_Opt)
  next
    case False
    then have "firstRest (Seq (Lit ''?'') (Star (Cls queryChar))) u = None"
      by (simp add: firstRest_Seq_None firstRest_Lit lit_def)
    then show ?thesis by (simp add: firstRest_Opt)
  qed
  from q [of ?d] obtain v where v:
    "firstRest (Opt (Seq (Lit ''?'') (Star (Cls queryChar)))) ?d = Some v"
    "dropWhile tailChar v = dropWhile tailChar ?d" by blast
  have "firstRest (Seq (Opt (Seq (Lit ''?'') (Star (Cls queryChar))))
       (Seq (Star (Cls tailChar)) (Opt (Lit ''>'')))) ?d = Some (dropWhile tailChar v)"
    by (rule firstRest_Seq [OF v(1) gt])
  then have "firstRest (Seq (Plus (Cls isDigit))
     (Seq (Opt (Seq (Lit ''?'') (Star (Cls queryChar))))
       (Seq (Star (Cls tailChar)) (Opt (Lit ''>''))))) s = Some (dropWhile tailChar v)"
    by (rule firstRest_Seq [OF 1])
  moreover have "dropWhile tailChar v = dropWhile tailChar s"
    using v(2) dropWhile_dropWhile_sub [of isDigit tailChar s, OF digit_tailChar] by simp
  ultimately show ?thesis using False by simp
qed


lemma firstRest_linkHead: "firstRest (linkHead k) s = Option.bind (headRest s) (firstRest k)"
  by (simp add: firstRest_def ms_linkHead split: option.splits)

lemma firstRest_handle:
  assumes "q \<noteq> []" and "\<not> P (hd q)"
  shows "firstRest (Seq (Plus (Cls P)) (Seq (Lit q) k)) r =
     (if takeWhile P r = [] then None else Option.bind (lit q (dropWhile P r)) (firstRest k))"
  using ms_Seq_Plus_Cls_Lit [of q P k r, OF assms]
  by (simp add: firstRest_def ms_Seq_Lit split: option.splits)

lemma headRest_lt: "prefix ''<'' s \<Longrightarrow> headRest s = None"
  by (cases s) (auto simp: headRest_def lit_def)

lemma firstRest_bracket:
  "firstRest (Seq (Opt (Lit ''<'')) (linkHead k)) s = firstRest (linkHead k) (optl ''<'' s)"
proof -
  have "ms (Seq (Opt (Lit ''<'')) (linkHead k)) s = ms (linkHead k) (optl ''<'' s)"
    by (rule ms_Seq_Opt_Lit) (simp add: ms_linkHead headRest_lt)
  then show ?thesis by (simp add: firstRest_def)
qed

definition digitsThen :: "(char \<Rightarrow> bool) \<Rightarrow> string \<Rightarrow> string option" where
  "digitsThen P d = (if takeWhile isDigit d = [] then None else Some (dropWhile P d))"

lemma firstRest_modifyPattern:
  "firstRest modifyPattern s =
     Option.bind (afterHandle notSlash (optl ''<'' s)) (digitsThen tailChar)"
  unfolding modifyPattern_def
  by (simp add: firstRest_bracket firstRest_linkHead firstRest_handle notSlash_def
      firstRest_tail afterHandle_def digitsThen_def cong: Option.bind_cong split: Option.bind_splits if_splits)

lemma firstRest_extractPattern:
  "firstRest extractPattern s = Option.bind (afterHandle notSlash s) (digitsThen isDigit)"
  unfolding extractPattern_def
  by (simp add: firstRest_linkHead firstRest_handle notSlash_def
      firstRest_Plus_Cls afterHandle_def digitsThen_def cong: Option.bind_cong split: Option.bind_splits if_splits)


section \<open>Replacement, one character at a time\<close>

lemma lit_Some: "lit p s = Some r \<longleftrightarrow> s = p @ r"
  by (auto simp: lit_def prefix_def)



definition protos :: "string list" where
  "protos = [''http://'', ''https://'']"

definition domains :: "string list" where
  "domains = [''twitter.com'', ''x.com'']"

definition wwws :: "string list" where
  "wwws = [[], ''www.'']"



lemma headRest_intro:
  assumes "p \<in> set protos" and "w \<in> set wwws" and "d \<in> set domains"
  shows "headRest (p @ w @ d @ ''/'' @ r) = Some r"
proof -
  from assms(1) have p: "p = ''http://'' \<or> p = ''https://''" by (simp add: protos_def)
  from assms(2) have w: "w = [] \<or> w = ''www.''" by (simp add: wwws_def)
  from assms(3) have d: "d = ''twitter.com'' \<or> d = ''x.com''" by (simp add: domains_def)
  from p w d show ?thesis
    by (elim disjE) (simp_all add: headRest_def lit_def optl_def)
qed













lemma afterHandle_intro:
  assumes "p \<in> set protos" and "w \<in> set wwws" and "dm \<in> set domains"
    and "H \<noteq> []" and "list_all P H" and "\<not> P (CHR ''/'')"
  shows "afterHandle P (p @ w @ dm @ ''/'' @ H @ ''/status/'' @ d) = Some d"
proof -
  define r where "r = H @ ''/status/'' @ d"
  have h: "headRest (p @ w @ dm @ ''/'' @ r) = Some r"
    by (rule headRest_intro [OF assms(1-3)])
  from assms(4,5,6) have t: "takeWhile P r \<noteq> []"
    by (cases H) (simp_all add: r_def)
  from assms(5,6) have dw: "dropWhile P r = ''/status/'' @ d"
    by (simp add: list_all_iff r_def)
  have "afterHandle P (p @ w @ dm @ ''/'' @ r) = Some d"
    unfolding afterHandle_def by (simp only: h Option.bind.simps t if_False dw lit_Some)
  then show ?thesis by (simp only: r_def)
qed


lemma not_notSlash_slash: "\<not> notSlash (CHR ''/'')"
  by (simp add: notSlash_def)

lemma list_all_notSlash: "list_all notSlash H \<longleftrightarrow> CHR ''/'' \<notin> set H"
  by (auto simp: list_all_iff notSlash_def)






lemma cutQuery_id: "CHR ''?'' \<notin> set s \<Longrightarrow> cutQuery s = s"
  by (auto simp: cutQuery_def takeWhile_eq_all_conv)




text \<open>The leftmost match, by positions.\<close>

lemma findMatch_None_iff:
  "findMatch r s = None \<longleftrightarrow> (\<forall>t. suffix t s \<longrightarrow> firstRest r t = None)"
proof (induction s)
  case Nil
  show ?case by (auto simp: matchAt_firstRest split: option.splits)
next
  case (Cons c cs)
  show ?case
  proof (cases "firstRest r (c # cs)")
    case None
    then have "findMatch r (c # cs) = None \<longleftrightarrow> findMatch r cs = None"
      by (simp add: matchAt_firstRest split: option.splits)
    with Cons None show ?thesis by (auto simp: suffix_Cons)
  next
    case (Some a)
    then have "findMatch r (c # cs) \<noteq> None" by (simp add: matchAt_firstRest)
    moreover from Some have "\<not> (\<forall>t. suffix t (c # cs) \<longrightarrow> firstRest r t = None)" by auto
    ultimately show ?thesis by blast
  qed
qed

lemma MatchString_iff:
  "MatchString r s \<longleftrightarrow> (\<exists>t. suffix t s \<and> firstRest r t \<noteq> None)"
  using findMatch_None_iff [of r s] by (auto simp: MatchString_def)

lemma modify_match_extract:
  assumes "firstRest modifyPattern t \<noteq> None"
  shows "firstRest extractPattern (optl ''<'' t) \<noteq> None"
  using assms
  by (auto simp: firstRest_modifyPattern firstRest_extractPattern digitsThen_def
      split: Option.bind_splits if_splits)

lemma suffix_optl: "suffix (optl p t) t"
  by (simp add: optl_def suffix_drop)

lemma MatchString_modify_extract:
  "MatchString modifyPattern s \<Longrightarrow> MatchString extractPattern s"
proof -
  assume "MatchString modifyPattern s"
  then obtain t where t: "suffix t s" "firstRest modifyPattern t \<noteq> None"
    by (auto simp: MatchString_iff)
  from t(1) suffix_optl [of "''<''" t] have "suffix (optl ''<'' t) s"
    by (rule suffix_order.trans [rotated])
  with modify_match_extract [OF t(2)] show ?thesis unfolding MatchString_iff by blast
qed

lemma modifyTwitterLinks_no_match:
  "findMatch modifyPattern s = None \<Longrightarrow> modifyTwitterLinks s = s"
  by (simp add: modifyTwitterLinks_def ReplaceAllStringFunc_def replaceAll.simps)


text \<open>
  Claim C7.  A text in which the pattern of a status link,
  \<open>https?://(www\.)?(twitter\.com|x\.com)/[^/]+/status/\d+\<close>, matches nowhere is returned
  unchanged.
\<close>

theorem C7_identity_without_link:
  assumes "\<not> MatchString extractPattern s"
  shows "modifyTwitterLinks s = s"
proof -
  from assms MatchString_modify_extract have "\<not> MatchString modifyPattern s" by blast
  then have "findMatch modifyPattern s = None" unfolding MatchString_def by blast
  then show ?thesis by (rule modifyTwitterLinks_no_match)
qed

text \<open>Claim C7 at a text that names both domains but holds no status link.\<close>

theorem C7_identity_without_link_witness:
  "\<not> MatchString extractPattern ''see twitter.com and https://x.com/home'' \<and>
   modifyTwitterLinks ''see twitter.com and https://x.com/home'' =
     ''see twitter.com and https://x.com/home''"
proof -
  have n: "\<not> MatchString extractPattern ''see twitter.com and https://x.com/home''"
    by code_simp
  from n C7_identity_without_link [OF n] show ?thesis by simp
qed





section \<open>Matching next to a boundary\<close>









lemma case_map_option:
  "(case map_option f x of None \<Rightarrow> n | Some y \<Rightarrow> g y) = (case x of None \<Rightarrow> n | Some y \<Rightarrow> g (f y))"
  by (cases x) simp_all























section \<open>The gate of the handler and the rewriter\<close>

text \<open>
  The handle of the status link that starts at the beginning of \<open>t\<close>, where one does: a
  status link is a match of the link shape
  \<open>https?://(www\.)?(twitter\.com|x\.com)/[^/]+/status/\d+\<close>, and its handle is the run
  of characters between the slash after the domain and the next slash.
\<close>

definition handleAt :: "string \<Rightarrow> string option" where
  "handleAt t =
     (case firstRest extractPattern t of
        None \<Rightarrow> None
      | Some u \<Rightarrow> map_option (takeWhile notSlash) (headRest t))"


lemma takeWhile_run:
  assumes "list_all P H" and "\<not> P c"
  shows "takeWhile P (H @ c # r) = H" and "dropWhile P (H @ c # r) = c # r"
  using assms by (induction H) auto

lemma handleAt_intro:
  assumes "p \<in> set protos" and "w \<in> set wwws" and "dm \<in> set domains"
    and "H \<noteq> []" and "CHR ''/'' \<notin> set H" and "D \<noteq> []" and "list_all isDigit D"
  shows "handleAt (p @ w @ dm @ ''/'' @ H @ ''/status/'' @ D @ r) = Some H"
proof -
  define d where "d = D @ r"
  define s where "s = p @ w @ dm @ ''/'' @ H @ ''/status/'' @ d"
  have H: "list_all notSlash H" using list_all_notSlash [of H] assms(5) by iprover
  have a: "afterHandle notSlash s = Some d"
    unfolding s_def by (rule afterHandle_intro [OF assms(1-4) H not_notSlash_slash])
  from assms(6,7) have "takeWhile isDigit d \<noteq> []"
    by (cases D) (auto simp: d_def)
  with a have f: "firstRest extractPattern s \<noteq> None"
    by (simp add: firstRest_extractPattern digitsThen_def)
  have "headRest (p @ w @ dm @ ''/'' @ (H @ ''/status/'' @ d)) = Some (H @ ''/status/'' @ d)"
    by (rule headRest_intro [OF assms(1-3)])
  then have h: "headRest s = Some (H @ ''/status/'' @ d)" by (simp add: s_def)
  have "takeWhile notSlash (H @ CHR ''/'' # ''status/'' @ d) = H"
    by (rule takeWhile_run(1) [OF H not_notSlash_slash])
  then have t: "takeWhile notSlash (H @ ''/status/'' @ d) = H" by simp
  from f h t have "handleAt s = Some H" by (auto simp: handleAt_def)
  then show ?thesis by (simp add: s_def d_def)
qed





lemma not_isWord_slash: "\<not> isWord (CHR ''/'')"
  by (simp add: isWord_def)












section \<open>Properties of the classifier and of the handler\<close>

lemma twimg_suffix_exclusive:
  "HasSuffix h ''abs.twimg.com'' \<Longrightarrow> \<not> list_ex (\<lambda>cdn. HasSuffix h cdn) twitterCDNs"
proof -
  assume a: "HasSuffix h ''abs.twimg.com''"
  have aux: "\<not> suffix p h" if "\<not> suffix p ''abs.twimg.com''" "\<not> suffix ''abs.twimg.com'' p" for p
    using that a suffix_same_cases [of p h "''abs.twimg.com''"] by (auto simp: HasSuffix_def)
  have "\<not> suffix ''pbs.twimg.com'' h" by (rule aux) (simp_all add: suffix_def)
  moreover have "\<not> suffix ''video.twimg.com'' h" by (rule aux) (simp_all add: suffix_def)
  moreover have "\<not> suffix ''ton.twimg.com'' h" by (rule aux) (simp_all add: suffix_def)
  ultimately show ?thesis by (simp add: twitterCDNs_def HasSuffix_def)
qed

lemma checkURL_abs:
  "host u = Some h \<Longrightarrow> HasSuffix h ''abs.twimg.com'' \<Longrightarrow> checkURL host u = Some False"
  using twimg_suffix_exclusive [of h] by (simp add: checkURL_def)

lemma checkURL_pbs:
  "host u = Some ''pbs.twimg.com'' \<Longrightarrow> checkURL host u = Some True"
  by (simp add: checkURL_def twitterCDNs_def HasSuffix_def)

lemma hello_no_status_link: "\<not> MatchString extractPattern ''hello''"
  by code_simp

lemma list_ex_remove:
  "\<not> P e \<Longrightarrow> list_ex P (es1 @ e # es2) = list_ex P (es1 @ es2)"
  by (auto simp: list_ex_iff)

text \<open>
  Claim C10.  A message of another user whose content is exactly \<open>hello\<close> is answered
  with exactly one send, \<open>world!\<close> on the channel of the message, and the handler returns
  there: the sends are the same whatever \<open>detect\<close>, \<open>sufficient\<close> and \<open>rewrite\<close> stand for
  link detection, preview classification and link rewriting, so none of them is
  consulted; in particular this holds for the handler of main.go.
\<close>

theorem C10_hello_reply:
  assumes "authorID m \<noteq> botID" and "content m = ''hello''"
  shows "messageCreateWith detect sufficient rewrite botID m = [(channelID m, ''world!'')] \<and>
         messageCreate botID host m = [(channelID m, ''world!'')]"
  using assms by (simp add: messageCreate_def messageCreateWith_def)

text \<open>
  Claim C10 at a message that carries an embed on a media host, with a detection that
  accepts every text, a classifier that rejects every message and a rewriter that changes
  every text: a handler that went on after the reply would send a second message.
\<close>

theorem C10_hello_reply_witness:
  "messageCreateWith (\<lambda>t. True) (\<lambda>m. False) (\<lambda>t. ''rewritten'') ''bot''
     \<lparr>authorID = ''user'', channelID = ''c1'', content = ''hello'',
      embeds = [\<lparr>embedURL = ''https://pbs.twimg.com/media/a.jpg'', embedImage = None,
        embedThumbnail = None\<rparr>], attachments = []\<rparr> = [(''c1'', ''world!'')] \<and>
   messageCreate ''bot'' exampleHost
     \<lparr>authorID = ''user'', channelID = ''c1'', content = ''hello'',
      embeds = [\<lparr>embedURL = ''https://pbs.twimg.com/media/a.jpg'', embedImage = None,
        embedThumbnail = None\<rparr>], attachments = []\<rparr> = [(''c1'', ''world!'')]"
  using C10_hello_reply [where m = "\<lparr>authorID = ''user'', channelID = ''c1'', content = ''hello'',
      embeds = [\<lparr>embedURL = ''https://pbs.twimg.com/media/a.jpg'', embedImage = None,
        embedThumbnail = None\<rparr>], attachments = []\<rparr>" and botID = "''bot''"
      and host = exampleHost and detect = "\<lambda>t. True" and sufficient = "\<lambda>m. False"
      and rewrite = "\<lambda>t. ''rewritten''"]
  by simp

text \<open>
  Claim C6, for the revisions whose classifier is \<open>hasValidTwitterPreview\<close>.  A message
  whose text contains a status link and that carries an attachment with the hostname
  \<open>pbs.twimg.com\<close> is classified as sufficient, and the handler sends nothing.  The
  handler of main.go does not read the attachments: its sends are the same whatever
  attachments the message carries.
\<close>

theorem C6_attachment_preview:
  assumes "a \<in> set (attachments m)"
    and "host (attachmentURL a) = Some ''pbs.twimg.com''"
    and "MatchString extractPattern (content m)"
  shows "hasValidTwitterPreview host m \<and> hasValidTwitterPreview_002 host m \<and>
         messageCreate_001 botID host m = [] \<and> messageCreate_002 botID host m = [] \<and>
         messageCreate botID host (m\<lparr>attachments := as\<rparr>) = messageCreate botID host m"
proof -
  from assms(2) have "isWorkingTwitterAttachment host a"
    by (simp add: isWorkingTwitterAttachment_def checkURL_pbs)
  with assms(1) have ex: "list_ex (isWorkingTwitterAttachment host) (attachments m)"
    by (auto simp: list_ex_iff)
  then have v: "hasValidTwitterPreview host m" "hasValidTwitterPreview_002 host m"
    by (simp_all add: hasValidTwitterPreview_def hasValidTwitterPreview_002_def)
  from assms(3) hello_no_status_link have "content m \<noteq> ''hello''" by auto
  with v show ?thesis
    by (simp add: messageCreate_001_def messageCreate_002_def messageCreate_def
        messageCreateWith_def Let_def)
qed

text \<open>Claim C6 at a message with one link and one attachment.\<close>

theorem C6_attachment_preview_witness:
  "messageCreate_001 ''bot'' exampleHost
     \<lparr>authorID = ''user'', channelID = ''c1'', content = ''https://x.com/u/status/1'',
      embeds = [], attachments = [\<lparr>attachmentURL = ''https://pbs.twimg.com/media/a.jpg''\<rparr>]\<rparr> = [] \<and>
   messageCreate_002 ''bot'' exampleHost
     \<lparr>authorID = ''user'', channelID = ''c1'', content = ''https://x.com/u/status/1'',
      embeds = [], attachments = [\<lparr>attachmentURL = ''https://pbs.twimg.com/media/a.jpg''\<rparr>]\<rparr> = []"
proof -
  have h: "exampleHost (attachmentURL \<lparr>attachmentURL = ''https://pbs.twimg.com/media/a.jpg''\<rparr>)
      = Some ''pbs.twimg.com''"
    by (simp add: exampleHost_def)
  have l: "MatchString extractPattern ''https://x.com/u/status/1''" by code_simp
  show ?thesis
    using C6_attachment_preview [where a = "\<lparr>attachmentURL = ''https://pbs.twimg.com/media/a.jpg''\<rparr>"
      and m = "\<lparr>authorID = ''user'', channelID = ''c1'', content = ''https://x.com/u/status/1'',
      embeds = [], attachments = [\<lparr>attachmentURL = ''https://pbs.twimg.com/media/a.jpg''\<rparr>]\<rparr>"
      and host = exampleHost and botID = "''bot''" and as = "[]"] h l
    by simp
qed

text \<open>
  Claim C6 fails for the handler of main.go, whose classifier \<open>hasValidTwitterEmbed\<close>
  reads the embeds only: this message, with a link in its text and an attachment on
  \<open>pbs.twimg.com\<close>, gets the rewritten reply.
\<close>

theorem C6_main_ignores_attachments:
  "containsTwitterLink ''https://x.com/u/status/1'' \<and>
   exampleHost ''https://pbs.twimg.com/media/a.jpg'' = Some ''pbs.twimg.com'' \<and>
   messageCreate ''bot'' exampleHost
     \<lparr>authorID = ''user'', channelID = ''c1'', content = ''https://x.com/u/status/1'',
      embeds = [], attachments = [\<lparr>attachmentURL = ''https://pbs.twimg.com/media/a.jpg''\<rparr>]\<rparr>
   = [(''c1'', ''https://fixupx.com/u/status/1'')]"
proof -
  have 1: "containsTwitterLink ''https://x.com/u/status/1''" by code_simp
  have 2: "modifyTwitterLinks ''https://x.com/u/status/1'' = ''https://fixupx.com/u/status/1''"
    by code_simp
  show ?thesis
    by (simp add: 1 2 messageCreate_def messageCreateWith_def hasValidTwitterEmbed_def
        exampleHost_def)
qed


text \<open>
  Claim C4, for \<open>isWorkingTwitterEmbed\<close> of src/unnamed/part\_001.  A thumbnail URL that
  contains \<open>tweet_video_thumb\<close> is never counted as a match, whatever its hostname: the
  verdict on the embed, and the verdict of \<open>hasValidTwitterPreview\<close> on a message with
  that embed, is the verdict without the thumbnail.  \<open>isTwitterEmbed\<close> of main.go has no
  test for the marker: an embed whose non-empty thumbnail URL has a hostname that ends
  with one of its CDN suffixes is a match there; so it is for \<open>isWorkingTwitterEmbed\<close> of
  src/unnamed/part\_002 when the embed has no primary URL and no image.
\<close>

theorem C4_placeholder_thumbnail:
  assumes "embedThumbnail e = Some u" and "Contains u ''tweet_video_thumb''"
  shows "checkThumbnail host u \<noteq> Some True \<and>
         isWorkingTwitterEmbed host e = isWorkingTwitterEmbed host (e\<lparr>embedThumbnail := None\<rparr>) \<and>
         hasValidTwitterPreview host (m\<lparr>embeds := es1 @ e # es2\<rparr>) =
           hasValidTwitterPreview host (m\<lparr>embeds := es1 @ e\<lparr>embedThumbnail := None\<rparr> # es2\<rparr>) \<and>
         (u \<noteq> [] \<longrightarrow> host u = Some h \<longrightarrow> list_ex (\<lambda>cdn. HasSuffix h cdn) twitterCDNs_main \<longrightarrow>
            isTwitterEmbed host e) \<and>
         (u \<noteq> [] \<longrightarrow> host u = Some h \<longrightarrow> list_ex (\<lambda>cdn. HasSuffix h cdn) twitterCDNs \<longrightarrow>
            embedURL e = [] \<longrightarrow> embedImage e = None \<longrightarrow> isWorkingTwitterEmbed_002 host e)"
proof -
  from assms have 1: "checkThumbnail host u \<noteq> Some True"
    by (simp add: checkThumbnail_def split: option.splits)
  from assms have 2:
    "isWorkingTwitterEmbed host e = isWorkingTwitterEmbed host (e\<lparr>embedThumbnail := None\<rparr>)"
    by (simp add: isWorkingTwitterEmbed_def checkThumbnail_def split: option.splits)
  from 2 have 3: "hasValidTwitterPreview host (m\<lparr>embeds := es1 @ e # es2\<rparr>) =
      hasValidTwitterPreview host (m\<lparr>embeds := es1 @ e\<lparr>embedThumbnail := None\<rparr> # es2\<rparr>)"
    by (simp add: hasValidTwitterPreview_def)
  from assms(1) have 4: "isTwitterEmbed host e"
    if "u \<noteq> []" "host u = Some h" "list_ex (\<lambda>cdn. HasSuffix h cdn) twitterCDNs_main"
    using that by (simp add: isTwitterEmbed_def onCDN_def)
  from assms(1) have 5: "isWorkingTwitterEmbed_002 host e"
    if "u \<noteq> []" "host u = Some h" "list_ex (\<lambda>cdn. HasSuffix h cdn) twitterCDNs"
      "embedURL e = []" "embedImage e = None"
    using that by (simp add: isWorkingTwitterEmbed_002_def checkURL_def)
  from 1 2 3 4 5 show ?thesis by blast
qed

text \<open>Claim C4 at an embed whose only URL is a placeholder thumbnail on \<open>pbs.twimg.com\<close>.\<close>

theorem C4_placeholder_thumbnail_witness:
  "exampleHost ''https://pbs.twimg.com/tweet_video_thumb/x.jpg'' = Some ''pbs.twimg.com'' \<and>
   \<not> isWorkingTwitterEmbed exampleHost \<lparr>embedURL = [], embedImage = None,
       embedThumbnail = Some ''https://pbs.twimg.com/tweet_video_thumb/x.jpg''\<rparr>"
proof -
  have c: "Contains ''https://pbs.twimg.com/tweet_video_thumb/x.jpg'' ''tweet_video_thumb''"
    by simp
  show ?thesis
    using C4_placeholder_thumbnail [where e = "\<lparr>embedURL = [], embedImage = None,
       embedThumbnail = Some ''https://pbs.twimg.com/tweet_video_thumb/x.jpg''\<rparr>"
       and u = "''https://pbs.twimg.com/tweet_video_thumb/x.jpg''" and host = exampleHost] c
    by (simp add: exampleHost_def isWorkingTwitterEmbed_def)
qed

text \<open>
  Claim C4 fails for \<open>isTwitterEmbed\<close> of main.go and for \<open>isWorkingTwitterEmbed\<close> of
  src/unnamed/part\_002: both count this placeholder thumbnail.
\<close>

theorem C4_placeholder_counted_elsewhere:
  "isTwitterEmbed exampleHost \<lparr>embedURL = [], embedImage = None,
       embedThumbnail = Some ''https://pbs.twimg.com/tweet_video_thumb/x.jpg''\<rparr> \<and>
   isWorkingTwitterEmbed_002 exampleHost \<lparr>embedURL = [], embedImage = None,
       embedThumbnail = Some ''https://pbs.twimg.com/tweet_video_thumb/x.jpg''\<rparr>"
  by (simp add: isTwitterEmbed_def isWorkingTwitterEmbed_002_def onCDN_def checkURL_def
      exampleHost_def twitterCDNs_main_def twitterCDNs_def HasSuffix_def suffix_def)


text \<open>
  Claim C5 as amended.  In the revisions with \<open>isWorkingTwitterEmbed\<close>, a non-empty URL
  whose hostname ends with \<open>abs.twimg.com\<close> is never a match, in an embed or in an
  attachment.  Where it is the primary URL of an embed, or the image or thumbnail URL
  that the earlier blocks of the embed leave undecided, it ends the examination of that
  embed with the verdict false; the scan of the message goes on with the other embeds and
  the attachments, wherever the embed or the attachment stands in its list.  In main.go
  the suffix is in the CDN list: an embed with such a URL as its primary, image or
  thumbnail URL is a match, and so is every list of embeds that holds it.
\<close>

theorem C5_abs_host:
  assumes "host u = Some h" and "HasSuffix h ''abs.twimg.com''" and "u \<noteq> []"
  shows
    "checkURL host u = Some False \<and> checkThumbnail host u = Some False \<and>
     (attachmentURL a = u \<longrightarrow>
        \<not> isWorkingTwitterAttachment host a \<and>
        hasValidTwitterPreview host (m\<lparr>attachments := as1 @ a # as2\<rparr>) =
          hasValidTwitterPreview host (m\<lparr>attachments := as1 @ as2\<rparr>) \<and>
        hasValidTwitterPreview_002 host (m\<lparr>attachments := as1 @ a # as2\<rparr>) =
          hasValidTwitterPreview_002 host (m\<lparr>attachments := as1 @ as2\<rparr>)) \<and>
     (embedURL e = u \<or>
      (embedURL e = [] \<or> checkURL host (embedURL e) = None) \<and> embedImage e = Some u \<or>
      (embedURL e = [] \<or> checkURL host (embedURL e) = None) \<and>
      (case embedImage e of None \<Rightarrow> True | Some v \<Rightarrow> v = [] \<or> checkURL host v = None) \<and>
      embedThumbnail e = Some u \<longrightarrow>
        \<not> isWorkingTwitterEmbed host e \<and> \<not> isWorkingTwitterEmbed_002 host e \<and>
        hasValidTwitterPreview host (m\<lparr>embeds := es1 @ e # es2\<rparr>) =
          hasValidTwitterPreview host (m\<lparr>embeds := es1 @ es2\<rparr>) \<and>
        hasValidTwitterPreview_002 host (m\<lparr>embeds := es1 @ e # es2\<rparr>) =
          hasValidTwitterPreview_002 host (m\<lparr>embeds := es1 @ es2\<rparr>)) \<and>
     (embedURL e = u \<or> embedImage e = Some u \<or> embedThumbnail e = Some u \<longrightarrow>
        isTwitterEmbed host e \<and> hasValidTwitterEmbed host (es1 @ e # es2))"
proof -
  from assms(1,2) have c: "checkURL host u = Some False" by (rule checkURL_abs)
  with assms(1) have t: "checkThumbnail host u = Some False"
    by (simp add: checkThumbnail_def)
  have att: "\<not> isWorkingTwitterAttachment host a \<and>
        hasValidTwitterPreview host (m\<lparr>attachments := as1 @ a # as2\<rparr>) =
          hasValidTwitterPreview host (m\<lparr>attachments := as1 @ as2\<rparr>) \<and>
        hasValidTwitterPreview_002 host (m\<lparr>attachments := as1 @ a # as2\<rparr>) =
          hasValidTwitterPreview_002 host (m\<lparr>attachments := as1 @ as2\<rparr>)"
    if "attachmentURL a = u"
  proof -
    from that c have "\<not> isWorkingTwitterAttachment host a"
      by (simp add: isWorkingTwitterAttachment_def)
    then show ?thesis
      by (simp add: hasValidTwitterPreview_def hasValidTwitterPreview_002_def list_ex_remove)
  qed
  have emb: "\<not> isWorkingTwitterEmbed host e \<and> \<not> isWorkingTwitterEmbed_002 host e \<and>
        hasValidTwitterPreview host (m\<lparr>embeds := es1 @ e # es2\<rparr>) =
          hasValidTwitterPreview host (m\<lparr>embeds := es1 @ es2\<rparr>) \<and>
        hasValidTwitterPreview_002 host (m\<lparr>embeds := es1 @ e # es2\<rparr>) =
          hasValidTwitterPreview_002 host (m\<lparr>embeds := es1 @ es2\<rparr>)"
    if "embedURL e = u \<or>
      (embedURL e = [] \<or> checkURL host (embedURL e) = None) \<and> embedImage e = Some u \<or>
      (embedURL e = [] \<or> checkURL host (embedURL e) = None) \<and>
      (case embedImage e of None \<Rightarrow> True | Some v \<Rightarrow> v = [] \<or> checkURL host v = None) \<and>
      embedThumbnail e = Some u"
  proof -
    from that c t assms(3) have "\<not> isWorkingTwitterEmbed host e"
      by (auto simp: isWorkingTwitterEmbed_def split: option.splits)
    moreover from that c assms(3) have "\<not> isWorkingTwitterEmbed_002 host e"
      by (auto simp: isWorkingTwitterEmbed_002_def split: option.splits)
    ultimately show ?thesis
      by (simp add: hasValidTwitterPreview_def hasValidTwitterPreview_002_def list_ex_remove)
  qed
  have main: "isTwitterEmbed host e \<and> hasValidTwitterEmbed host (es1 @ e # es2)"
    if "embedURL e = u \<or> embedImage e = Some u \<or> embedThumbnail e = Some u"
  proof -
    from assms(1,2) have "onCDN host twitterCDNs_main u"
      by (simp add: onCDN_def twitterCDNs_main_def)
    with that assms(3) have "isTwitterEmbed host e"
      by (auto simp: isTwitterEmbed_def)
    then show ?thesis by (simp add: hasValidTwitterEmbed_def)
  qed
  from c t att emb main show ?thesis by blast
qed

text \<open>
  Claim C5 as amended, at a message whose second embed is on \<open>abs.twimg.com\<close> and whose
  third embed is on \<open>pbs.twimg.com\<close>: the third embed is reached.
\<close>

theorem C5_abs_host_witness:
  "\<not> isWorkingTwitterEmbed exampleHost \<lparr>embedURL = ''https://abs.twimg.com/x.png'',
       embedImage = None, embedThumbnail = None\<rparr> \<and>
   hasValidTwitterPreview exampleHost \<lparr>authorID = ''user'', channelID = ''c1'',
       content = ''https://x.com/u/status/1'',
       embeds = [\<lparr>embedURL = ''https://example.com/page'', embedImage = None,
                  embedThumbnail = None\<rparr>,
                 \<lparr>embedURL = ''https://abs.twimg.com/x.png'', embedImage = None,
                  embedThumbnail = None\<rparr>,
                 \<lparr>embedURL = ''https://pbs.twimg.com/media/a.jpg'', embedImage = None,
                  embedThumbnail = None\<rparr>],
       attachments = []\<rparr>"
proof -
  have h: "exampleHost ''https://abs.twimg.com/x.png'' = Some ''abs.twimg.com''"
    by (simp add: exampleHost_def)
  have s: "HasSuffix ''abs.twimg.com'' ''abs.twimg.com''" by (simp add: HasSuffix_def)
  have n: "''https://abs.twimg.com/x.png'' \<noteq> []" by simp
  have v: "hasValidTwitterPreview exampleHost \<lparr>authorID = ''user'', channelID = ''c1'',
       content = ''https://x.com/u/status/1'',
       embeds = [\<lparr>embedURL = ''https://example.com/page'', embedImage = None,
                  embedThumbnail = None\<rparr>,
                 \<lparr>embedURL = ''https://pbs.twimg.com/media/a.jpg'', embedImage = None,
                  embedThumbnail = None\<rparr>],
       attachments = []\<rparr>"
    by (simp add: hasValidTwitterPreview_def isWorkingTwitterEmbed_def checkURL_def
        exampleHost_def twitterCDNs_def HasSuffix_def suffix_def)
  show ?thesis
    using C5_abs_host [where host = exampleHost and u = "''https://abs.twimg.com/x.png''"
       and h = "''abs.twimg.com''"
       and e = "\<lparr>embedURL = ''https://abs.twimg.com/x.png'',
       embedImage = None, embedThumbnail = None\<rparr>"
       and m = "\<lparr>authorID = ''user'', channelID = ''c1'', content = ''https://x.com/u/status/1'',
         embeds = [], attachments = []\<rparr>"
       and ?es1.0 = "[\<lparr>embedURL = ''https://example.com/page'', embedImage = None,
                  embedThumbnail = None\<rparr>]"
       and ?es2.0 = "[\<lparr>embedURL = ''https://pbs.twimg.com/media/a.jpg'', embedImage = None,
                  embedThumbnail = None\<rparr>]", OF h s n] v
    by simp
qed

text \<open>
  Claim C5 fails: an embed whose primary URL is on \<open>abs.twimg.com\<close> gets the verdict
  false although its image URL is on \<open>pbs.twimg.com\<close>, so the remaining URLs of the message
  are not all scanned; and main.go counts the \<open>abs.twimg.com\<close> URL as a match.
\<close>

theorem C5_abs_host_not_skipped:
  "exampleHost ''https://abs.twimg.com/x.png'' = Some ''abs.twimg.com'' \<and>
   exampleHost ''https://pbs.twimg.com/media/a.jpg'' = Some ''pbs.twimg.com'' \<and>
   \<not> hasValidTwitterPreview exampleHost \<lparr>authorID = ''user'', channelID = ''c1'',
       content = ''https://x.com/u/status/1'',
       embeds = [\<lparr>embedURL = ''https://abs.twimg.com/x.png'',
                  embedImage = Some ''https://pbs.twimg.com/media/a.jpg'',
                  embedThumbnail = None\<rparr>],
       attachments = []\<rparr> \<and>
   \<not> hasValidTwitterPreview_002 exampleHost \<lparr>authorID = ''user'', channelID = ''c1'',
       content = ''https://x.com/u/status/1'',
       embeds = [\<lparr>embedURL = ''https://abs.twimg.com/x.png'',
                  embedImage = Some ''https://pbs.twimg.com/media/a.jpg'',
                  embedThumbnail = None\<rparr>],
       attachments = []\<rparr> \<and>
   hasValidTwitterEmbed exampleHost [\<lparr>embedURL = ''https://abs.twimg.com/x.png'',
                  embedImage = None, embedThumbnail = None\<rparr>]"
  by (simp add: hasValidTwitterPreview_def hasValidTwitterPreview_002_def
      hasValidTwitterEmbed_def isTwitterEmbed_def onCDN_def twitterCDNs_main_def
      isWorkingTwitterEmbed_def isWorkingTwitterEmbed_002_def checkURL_def
      exampleHost_def twitterCDNs_def HasSuffix_def suffix_def)

end
